theory Spec2Isabelle
  imports Main "HOL-Library.AList"
begin

section \<open>Configuration values\<close>

text \<open>
  The module \<^verbatim>\<open>camphr/models.py\<close> rewrites a hierarchical configuration before an NLP
  pipeline is built from it. A configuration node is plain data: null, a boolean, an
  integer, a string, a list or an ordered mapping from strings to nodes. Ordered mappings
  are association lists with pairwise distinct keys; the order of the list is the
  iteration order of the dictionary.

  The settings of a pipeline stage are such a mapping, possibly empty. The module never
  looks into the settings of a stage that is not an advanced-backend stage, so for such a
  stage the empty mapping stands for a null settings node as well. Identifier propagation
  subscripts the settings of the advanced-backend stages; that pass is modelled a second
  time below on pipelines whose stages may have a null settings node. The interpolations
  and mandatory-value markers of the configuration library are not represented.
\<close>

datatype val =
    VNone
  | VBool bool
  | VInt int
  | VStr string
  | VList "val list"
  | VDict "(string \<times> val) list"

type_synonym settings = "(string \<times> val) list"

type_synonym pipeline_cfg = "(string \<times> settings) list"

text \<open>Truth value of a node in a Python condition.\<close>

fun truthy :: "val \<Rightarrow> bool" where
  "truthy VNone = False"
| "truthy (VBool b) = b"
| "truthy (VInt i) = (i \<noteq> 0)"
| "truthy (VStr s) = (s \<noteq> [])"
| "truthy (VList xs) = (xs \<noteq> [])"
| "truthy (VDict d) = (d \<noteq> [])"

datatype error =
    ValueError string
  | KeyError string
  | TypeError string
  | OSError string

record LangConfig =
  name :: string
  torch :: bool
  optimizer :: settings
  kwargs :: "settings option"

record NLPConfig =
  name :: string
  lang :: LangConfig
  pipeline :: pipeline_cfg

section \<open>Dictionary operations\<close>

text \<open>
  \<^verbatim>\<open>d[k] = v\<close>: an existing key keeps its position and takes the new value, a new key is
  appended.
\<close>

definition setitem :: "('k \<times> 'v) list \<Rightarrow> 'k \<Rightarrow> 'v \<Rightarrow> ('k \<times> 'v) list" where
  "setitem d k v = AList.update k v d"

text \<open>
  Modelled from the spec: \<^verbatim>\<open>v[k]\<close> on the settings of a stage is the item access of the
  \<^verbatim>\<open>DictConfig\<close> class of the omegaconf library, which is not among the sources. The
  specification has identifier propagation scan every advanced-backend stage "for a
  non-empty shared-identifier value" and has label resolution inspect a stage "if present",
  and its end-to-end example runs the scan over stages that completion has inserted with
  empty settings: a key that is not there reads as null. The module relies on this where
  it writes \<^verbatim>\<open>ner = cfg.pipeline[TRANSFORMERS_NER]\<close> followed by \<^verbatim>\<open>if ner:\<close>.
\<close>

definition getitem :: "settings \<Rightarrow> string \<Rightarrow> val" where
  "getitem v k = (case map_of v k of None \<Rightarrow> VNone | Some x \<Rightarrow> x)"

text \<open>\<^verbatim>\<open>d.get(k, default)\<close>.\<close>

definition get_default :: "('k \<times> 'v) list \<Rightarrow> 'k \<Rightarrow> 'v \<Rightarrow> 'v" where
  "get_default d k dflt = (case map_of d k of None \<Rightarrow> dflt | Some x \<Rightarrow> x)"

text \<open>The dictionary comprehension \<^verbatim>\<open>{k: f(k) for k in ks}\<close>.\<close>

definition dict_comp :: "('k \<Rightarrow> 'v) \<Rightarrow> 'k list \<Rightarrow> ('k \<times> 'v) list" where
  "dict_comp f ks = foldl (\<lambda>d k. setitem d k (f k)) [] ks"

text \<open>
  \<^verbatim>\<open>xs.index(k)\<close>, the position of the first occurrence. The module calls it only under
  the guard \<^verbatim>\<open>k in xs\<close>; for an absent element this function yields the length of the list.
\<close>

fun index :: "'a list \<Rightarrow> 'a \<Rightarrow> nat" where
  "index [] k = 0"
| "index (x # xs) k = (if x = k then 0 else Suc (index xs k))"

text \<open>\<^verbatim>\<open>xs.insert(i, k)\<close>: the element goes before position \<open>i\<close>, or to the end when \<open>i\<close> is
  beyond it.\<close>

definition insert_at :: "nat \<Rightarrow> 'a \<Rightarrow> 'a list \<Rightarrow> 'a list" where
  "insert_at i k xs = take i xs @ k # drop i xs"

text \<open>\<^verbatim>\<open>min(xs)\<close> of a non-empty list; the module calls it only after the emptiness test.\<close>

fun list_min :: "nat list \<Rightarrow> nat" where
  "list_min [] = 0"
| "list_min (x # xs) = fold min xs x"

section \<open>Stage names\<close>

text \<open>
  Modelled from the spec: the stage-name constants and the key \<^verbatim>\<open>LABELS\<close> are imported by
  the module from \<^verbatim>\<open>camphr.pipelines\<close>, which is not among the sources. Three of the names
  are spelled out in the docstring of \<^verbatim>\<open>_correct_trf_pipeline\<close>; the specification lists the
  key \<^verbatim>\<open>pipeline.<stage-name>.labels\<close> and the four stages tokenizer, base model, sequence
  classifier and token labeler. The proofs use only that the four stage names differ.
\<close>

definition TRANSFORMERS_TOKENIZER :: string where
  "TRANSFORMERS_TOKENIZER = ''transformers_tokenizer''"

definition TRANSFORMERS_MODEL :: string where
  "TRANSFORMERS_MODEL = ''transformers_model''"

definition TRANSFORMERS_SEQ_CLASSIFIER :: string where
  "TRANSFORMERS_SEQ_CLASSIFIER = ''transformers_sequence_classifier''"

definition TRANSFORMERS_NER :: string where
  "TRANSFORMERS_NER = ''transformers_ner''"

definition LABELS :: string where
  "LABELS = ''labels''"

definition TRF_BASES :: "string list" where
  "TRF_BASES = [TRANSFORMERS_TOKENIZER, TRANSFORMERS_MODEL]"

definition TRF_TASKS :: "string list" where
  "TRF_TASKS = [TRANSFORMERS_SEQ_CLASSIFIER, TRANSFORMERS_NER]"

definition TRF_PIPES :: "string list" where
  "TRF_PIPES = TRF_BASES @ TRF_TASKS"

section \<open>The passes\<close>

subsection \<open>Pipeline completion\<close>

definition complement_trf_pipeline :: "NLPConfig \<Rightarrow> NLPConfig" where
  "complement_trf_pipeline cfg =
     (let pipe_names = map fst (pipeline cfg);
          trf_task_indices = map (index pipe_names) (filter (\<lambda>k. k \<in> set pipe_names) TRF_TASKS)
      in if trf_task_indices = [] then cfg
         else
           let trf_task_idx = list_min trf_task_indices;
               pipe_names' =
                 fold (\<lambda>k names. if k \<notin> set names then insert_at trf_task_idx k names else names)
                   (rev TRF_BASES) pipe_names
           in cfg\<lparr>pipeline := dict_comp (\<lambda>k. get_default (pipeline cfg) k []) pipe_names'\<rparr>)"

subsection \<open>Identifier propagation\<close>

definition KEY :: string where
  "KEY = ''trf_name_or_path''"

text \<open>The first loop of \<^verbatim>\<open>_complement_trf_name\<close>: one step, and the scan from \<^verbatim>\<open>VAL = ""\<close>.\<close>

definition scan_step :: "string \<times> settings \<Rightarrow> val \<Rightarrow> val" where
  "scan_step kv VAL =
     (if fst kv \<in> set TRF_PIPES \<and> truthy (getitem (snd kv) KEY) then getitem (snd kv) KEY
      else VAL)"

definition scan_name :: "pipeline_cfg \<Rightarrow> val" where
  "scan_name p = fold scan_step p (VStr [])"

definition missing_name_message :: "string \<Rightarrow> string" where
  "missing_name_message rendering =
     ''Invalid configuration. At least one of transformer's pipe needs `'' @ KEY @
     ''`, but the configuration is:'' @ [CHR 0x0A] @ rendering"

text \<open>
  \<open>pretty\<close> stands for \<^verbatim>\<open>cfg.pipeline.pretty()\<close>, the rendering of the pipeline section by the
  configuration library.
\<close>

definition complement_trf_name ::
  "(pipeline_cfg \<Rightarrow> string) \<Rightarrow> NLPConfig \<Rightarrow> error + NLPConfig" where
  "complement_trf_name pretty cfg =
     (if set (map fst (pipeline cfg)) \<inter> set TRF_PIPES = {} then Inr cfg
      else
        let VAL = scan_name (pipeline cfg)
        in if \<not> truthy VAL then Inl (ValueError (missing_name_message (pretty (pipeline cfg))))
           else Inr (cfg\<lparr>pipeline :=
                  map (\<lambda>(k, v). if k \<in> set TRF_PIPES then (k, setitem v KEY VAL) else (k, v))
                    (pipeline cfg)\<rparr>))"

text \<open>
  The same pass on the pipeline section alone, with the settings node of a stage as it
  arrives: \<open>None\<close> for a null node (a stage written without settings), \<open>Some s\<close> for a
  mapping. The pass reads and writes nothing but \<^verbatim>\<open>cfg.pipeline\<close>. Both loops subscript the
  settings of every advanced-backend stage, \<^verbatim>\<open>v[KEY]\<close> in the first and \<^verbatim>\<open>v[KEY] = VAL\<close> in the
  second, and subscripting \<^verbatim>\<open>None\<close> raises a \<^verbatim>\<open>TypeError\<close>.
\<close>

type_synonym node_pipeline = "(string \<times> settings option) list"

definition null_subscript :: error where
  "null_subscript = TypeError ''NoneType object is not subscriptable''"

fun scan_nodes :: "node_pipeline \<Rightarrow> val \<Rightarrow> error + val" where
  "scan_nodes [] VAL = Inr VAL"
| "scan_nodes ((k, v) # p) VAL =
     (if k \<in> set TRF_PIPES then
        (case v of
           None \<Rightarrow> Inl null_subscript
         | Some s \<Rightarrow> scan_nodes p (if truthy (getitem s KEY) then getitem s KEY else VAL))
      else scan_nodes p VAL)"

fun write_nodes :: "val \<Rightarrow> node_pipeline \<Rightarrow> error + node_pipeline" where
  "write_nodes VAL [] = Inr []"
| "write_nodes VAL ((k, v) # p) =
     (if k \<in> set TRF_PIPES then
        (case v of
           None \<Rightarrow> Inl null_subscript
         | Some s \<Rightarrow>
             (case write_nodes VAL p of
                Inl e \<Rightarrow> Inl e
              | Inr p' \<Rightarrow> Inr ((k, Some (setitem s KEY VAL)) # p')))
      else (case write_nodes VAL p of Inl e \<Rightarrow> Inl e | Inr p' \<Rightarrow> Inr ((k, v) # p')))"

definition complement_trf_name_nodes ::
  "(node_pipeline \<Rightarrow> string) \<Rightarrow> node_pipeline \<Rightarrow> error + node_pipeline" where
  "complement_trf_name_nodes pretty p =
     (if set (map fst p) \<inter> set TRF_PIPES = {} then Inr p
      else
        (case scan_nodes p (VStr []) of
           Inl e \<Rightarrow> Inl e
         | Inr VAL \<Rightarrow>
             if \<not> truthy VAL then Inl (ValueError (missing_name_message (pretty p)))
             else write_nodes VAL p))"

text \<open>A pipeline of the first model as a pipeline of the second: every stage has a mapping.\<close>

definition with_settings :: "pipeline_cfg \<Rightarrow> node_pipeline" where
  "with_settings p = map (\<lambda>kv. (fst kv, Some (snd kv))) p"

subsection \<open>Backend-mode correction\<close>

definition correct_torch :: "NLPConfig \<Rightarrow> NLPConfig" where
  "correct_torch cfg =
     (if set (map fst (pipeline cfg)) \<inter> set TRF_PIPES \<noteq> {}
      then cfg\<lparr>lang := (lang cfg)\<lparr>torch := True\<rparr>\<rparr>
      else cfg)"

definition correct_trf_pipeline ::
  "(pipeline_cfg \<Rightarrow> string) \<Rightarrow> NLPConfig \<Rightarrow> error + NLPConfig" where
  "correct_trf_pipeline pretty cfg =
     (case complement_trf_name pretty (complement_trf_pipeline cfg) of
        Inl e \<Rightarrow> Inl e
      | Inr cfg' \<Rightarrow> Inr (correct_torch cfg'))"

subsection \<open>Label resolution\<close>

text \<open>
  \<open>get_biluo_labels\<close> and \<open>get_labels\<close> are the label routines of \<^verbatim>\<open>camphr.ner_labels.utils\<close>
  and \<^verbatim>\<open>camphr.utils\<close>. They are parameters here; either may fail.
\<close>

definition resolve_label ::
  "(val \<Rightarrow> error + val) \<Rightarrow> (val \<Rightarrow> error + val) \<Rightarrow> NLPConfig \<Rightarrow> error + NLPConfig" where
  "resolve_label get_biluo_labels get_labels cfg =
     (let r1 =
        (case map_of (pipeline cfg) TRANSFORMERS_NER of
           None \<Rightarrow> Inr cfg
         | Some ner \<Rightarrow>
             if ner = [] then Inr cfg
             else (case get_biluo_labels (getitem ner LABELS) of
                     Inl e \<Rightarrow> Inl e
                   | Inr l \<Rightarrow>
                       Inr (cfg\<lparr>pipeline :=
                         setitem (pipeline cfg) TRANSFORMERS_NER (setitem ner LABELS l)\<rparr>)))
      in case r1 of
           Inl e \<Rightarrow> Inl e
         | Inr cfg1 \<Rightarrow>
             (case map_of (pipeline cfg1) TRANSFORMERS_SEQ_CLASSIFIER of
                None \<Rightarrow> Inr cfg1
              | Some seq \<Rightarrow>
                  if seq = [] then Inr cfg1
                  else (case get_labels (getitem seq LABELS) of
                          Inl e \<Rightarrow> Inl e
                        | Inr l \<Rightarrow>
                            Inr (cfg1\<lparr>pipeline :=
                              setitem (pipeline cfg1) TRANSFORMERS_SEQ_CLASSIFIER
                                (setitem seq LABELS l)\<rparr>))))"

subsection \<open>The resolution chain\<close>

definition correct_nlp_config ::
  "(pipeline_cfg \<Rightarrow> string) \<Rightarrow> (val \<Rightarrow> error + val) \<Rightarrow> (val \<Rightarrow> error + val) \<Rightarrow>
     NLPConfig \<Rightarrow> error + NLPConfig" where
  "correct_nlp_config pretty get_biluo_labels get_labels cfg =
     (case correct_trf_pipeline pretty cfg of
        Inl e \<Rightarrow> Inl e
      | Inr cfg' \<Rightarrow> resolve_label get_biluo_labels get_labels cfg')"

subsection \<open>Language-host construction\<close>

text \<open>
  \<^verbatim>\<open>cytoolz.merge(d1, d2)\<close>: the dictionaries are written into a new one from left to right, so
  a key of both takes the value of the right one and keeps the position it has in the left
  one.
\<close>

definition merge :: "settings \<Rightarrow> settings \<Rightarrow> settings" where
  "merge d1 d2 = fold (\<lambda>kv rv. setitem rv (fst kv) (snd kv)) (d1 @ d2) []"

text \<open>
  The host is built by the NLP framework. A host is recorded here by the call that builds
  it: \<^verbatim>\<open>TorchLanguage(Vocab(), optimizer_config=..., **kwargs)\<close> with the optimizer settings
  and the keyword arguments, or \<^verbatim>\<open>spacy.blank(name, **kwargs)\<close> with the language name and the
  keyword arguments. Whether the callee accepts the call (it does not when a keyword
  argument arrives twice) and what it does with its arguments is outside this model.
\<close>

datatype host =
    TorchLanguage settings settings
  | SpacyBlank string settings

text \<open>
  \<^verbatim>\<open>merge\<close> needs mappings: it fails for a \<open>meta\<close> that is null, a number or a non-empty
  string. Any \<open>meta\<close> that is not a mapping is rejected here, also the empty string and the
  lists, which are not modelled further.
\<close>

definition create_lang :: "LangConfig \<Rightarrow> error + host" where
  "create_lang cfg =
     (let kwargs = (case kwargs cfg of None \<Rightarrow> [] | Some kw \<Rightarrow> kw)
      in if torch cfg then
           (case get_default kwargs ''meta'' (VDict []) of
              VDict meta \<Rightarrow>
                Inr (TorchLanguage (optimizer cfg)
                      (setitem kwargs ''meta''
                         (VDict (merge meta [(''lang'', VStr (LangConfig.name cfg))]))))
            | _ \<Rightarrow> Inl (TypeError ''merge''))
         else Inr (SpacyBlank (LangConfig.name cfg) kwargs))"

section \<open>The specification's vocabulary\<close>

text \<open>
  The base stages a pipeline lacks, in the order tokenizer, base model, and the pipeline
  the specification describes for completion: the missing base stages, with empty settings,
  placed immediately before the earliest task stage.
\<close>

definition missing_bases :: "pipeline_cfg \<Rightarrow> string list" where
  "missing_bases p = filter (\<lambda>k. k \<notin> set (map fst p)) TRF_BASES"

definition completion_spec :: "pipeline_cfg \<Rightarrow> pipeline_cfg" where
  "completion_spec p =
     takeWhile (\<lambda>kv. fst kv \<notin> set TRF_TASKS) p @
     map (\<lambda>k. (k, [])) (missing_bases p) @
     dropWhile (\<lambda>kv. fst kv \<notin> set TRF_TASKS) p"

text \<open>
  The non-empty identifiers that advanced-backend stages declare, in pipeline order.
\<close>

definition declared_names :: "pipeline_cfg \<Rightarrow> val list" where
  "declared_names p =
     map (\<lambda>kv. getitem (snd kv) KEY)
       (filter (\<lambda>kv. fst kv \<in> set TRF_PIPES \<and> truthy (getitem (snd kv) KEY)) p)"

text \<open>
  What label resolution does to one stage, given the stage before and after as the
  pipeline has it (\<open>None\<close> for an absent stage), and whether the label routine succeeds
  where it is called.
\<close>

definition stage_resolved ::
  "(val \<Rightarrow> error + val) \<Rightarrow> settings option \<Rightarrow> settings option \<Rightarrow> bool" where
  "stage_resolved f before after =
     (case before of
        None \<Rightarrow> after = None
      | Some s \<Rightarrow>
          if s = [] then after = Some []
          else (case f (getitem s LABELS) of
                  Inl e \<Rightarrow> False
                | Inr l \<Rightarrow> after = Some (setitem s LABELS l)))"

definition routine_succeeds :: "(val \<Rightarrow> error + val) \<Rightarrow> settings option \<Rightarrow> bool" where
  "routine_succeeds f before =
     (case before of
        None \<Rightarrow> True
      | Some s \<Rightarrow> s = [] \<or> (case f (getitem s LABELS) of Inl e \<Rightarrow> False | Inr l \<Rightarrow> True))"

text \<open>
  Modelled from the spec: \<^verbatim>\<open>get_labels\<close> of \<^verbatim>\<open>camphr.utils\<close> is not among the sources. The
  specification describes it as the routine that "accepts an inline list or a reference to
  an external label resource" and returns the resolved flat label list. An inline list is
  the resolved list; everything else is left to \<open>external\<close>, the reading of the resource.
\<close>

definition get_labels_spec :: "(val \<Rightarrow> error + val) \<Rightarrow> val \<Rightarrow> error + val" where
  "get_labels_spec external spec =
     (case spec of VList ls \<Rightarrow> Inr (VList ls) | _ \<Rightarrow> external spec)"

section \<open>Example configurations\<close>

text \<open>Concrete configurations on which the theorems below are instantiated.\<close>

definition completion_example :: NLPConfig where
  "completion_example =
     \<lparr>name = ''example'',
      lang = \<lparr>LangConfig.name = ''en'', torch = False, optimizer = [], kwargs = None\<rparr>,
      pipeline =
        [(''sentencizer'', [(''punct_chars'', VList [VStr ''.''])]),
         (TRANSFORMERS_MODEL, [(KEY, VStr ''bert'')]),
         (TRANSFORMERS_NER, [(LABELS, VList [VStr ''PERSON''])]),
         (TRANSFORMERS_SEQ_CLASSIFIER, [])]\<rparr>"

definition complete_example :: NLPConfig where
  "complete_example =
     \<lparr>name = ''example'',
      lang = \<lparr>LangConfig.name = ''en'', torch = False, optimizer = [], kwargs = None\<rparr>,
      pipeline =
        [(TRANSFORMERS_TOKENIZER, []),
         (TRANSFORMERS_NER, [(KEY, VStr ''bert''), (LABELS, VList [VStr ''PERSON''])]),
         (TRANSFORMERS_MODEL, [(KEY, VStr ''xlnet'')])]\<rparr>"

definition plain_example :: NLPConfig where
  "plain_example =
     \<lparr>name = ''example'',
      lang = \<lparr>LangConfig.name = ''ja'', torch = False, optimizer = [], kwargs = None\<rparr>,
      pipeline = [(''sentencizer'', []), (TRANSFORMERS_MODEL, [])]\<rparr>"

definition example_pretty :: "pipeline_cfg \<Rightarrow> string" where
  "example_pretty p = concat (map (\<lambda>kv. fst kv @ '':'' @ [CHR 0x0A]) p)"

definition two_names_example :: NLPConfig where
  "two_names_example =
     \<lparr>name = ''example'',
      lang = \<lparr>LangConfig.name = ''en'', torch = True, optimizer = [], kwargs = None\<rparr>,
      pipeline =
        [(TRANSFORMERS_TOKENIZER, [(KEY, VStr ''bert''), (''lower'', VBool True)]),
         (''sentencizer'', [(KEY, VStr ''other'')]),
         (TRANSFORMERS_MODEL, [(KEY, VStr ''xlnet'')]),
         (TRANSFORMERS_NER, [(LABELS, VList [VStr ''PERSON'']), (KEY, VStr [])])]\<rparr>"

definition labels_example :: NLPConfig where
  "labels_example =
     \<lparr>name = ''example'',
      lang = \<lparr>LangConfig.name = ''en'', torch = True, optimizer = [], kwargs = None\<rparr>,
      pipeline =
        [(TRANSFORMERS_SEQ_CLASSIFIER, []),
         (''sentencizer'', [(LABELS, VList [VStr ''kept''])]),
         (TRANSFORMERS_NER, [(KEY, VStr ''bert''), (LABELS, VList [VStr ''LOC''])])]\<rparr>"

definition example_biluo :: "val \<Rightarrow> error + val" where
  "example_biluo spec =
     (case spec of
        VList ls \<Rightarrow> Inr (VList (VStr ''O'' # concat (map (\<lambda>l. case l of
            VStr s \<Rightarrow> [VStr (''B-'' @ s), VStr (''I-'' @ s), VStr (''L-'' @ s), VStr (''U-'' @ s)]
          | _ \<Rightarrow> []) ls)))
      | _ \<Rightarrow> Inl (TypeError ''labels''))"

definition chain_example :: NLPConfig where
  "chain_example =
     \<lparr>name = ''example'',
      lang = \<lparr>LangConfig.name = ''en'', torch = False, optimizer = [], kwargs = None\<rparr>,
      pipeline =
        [(''sentencizer'', [(''punct_chars'', VList [VStr ''.''])]),
         (TRANSFORMERS_SEQ_CLASSIFIER,
          [(KEY, VStr ''m1''), (LABELS, VList [VStr ''pos'', VStr ''neg''])]),
         (''tagger'', [])]\<rparr>"

definition chain_example_result :: NLPConfig where
  "chain_example_result =
     \<lparr>name = ''example'',
      lang = \<lparr>LangConfig.name = ''en'', torch = True, optimizer = [], kwargs = None\<rparr>,
      pipeline =
        [(''sentencizer'', [(''punct_chars'', VList [VStr ''.''])]),
         (TRANSFORMERS_TOKENIZER, [(KEY, VStr ''m1'')]),
         (TRANSFORMERS_MODEL, [(KEY, VStr ''m1'')]),
         (TRANSFORMERS_SEQ_CLASSIFIER,
          [(KEY, VStr ''m1''), (LABELS, VList [VStr ''pos'', VStr ''neg''])]),
         (''tagger'', [])]\<rparr>"

definition lang_example :: LangConfig where
  "lang_example =
     \<lparr>LangConfig.name = ''ja'', torch = True, optimizer = [(''lr'', VInt 2)],
      kwargs = Some [(''max_length'', VInt 100),
                     (''meta'', VDict [(''author'', VStr ''me''), (''lang'', VStr ''xx'')])]\<rparr>"

section \<open>Stage names and list operations\<close>

lemma stage_names_distinct: "distinct TRF_PIPES"
  by (simp add: TRF_PIPES_def TRF_BASES_def TRF_TASKS_def TRANSFORMERS_TOKENIZER_def
      TRANSFORMERS_MODEL_def TRANSFORMERS_SEQ_CLASSIFIER_def TRANSFORMERS_NER_def)

lemma base_names_differ: "TRANSFORMERS_TOKENIZER \<noteq> TRANSFORMERS_MODEL"
  using stage_names_distinct by (simp add: TRF_PIPES_def TRF_BASES_def)

lemma task_names_differ: "TRANSFORMERS_NER \<noteq> TRANSFORMERS_SEQ_CLASSIFIER"
  using stage_names_distinct by (auto simp: TRF_PIPES_def TRF_TASKS_def)

lemma base_not_task: "k \<in> set TRF_BASES \<Longrightarrow> k \<notin> set TRF_TASKS"
  using stage_names_distinct by (auto simp: TRF_PIPES_def)

lemma index_takeWhile: "index xs k = length (takeWhile (\<lambda>x. x \<noteq> k) xs)"
  by (induction xs) auto

lemma min_index2:
  "min (length (takeWhile (\<lambda>x. x \<noteq> a) xs)) (length (takeWhile (\<lambda>x. x \<noteq> b) xs)) =
   length (takeWhile (\<lambda>x. x \<noteq> a \<and> x \<noteq> b) xs)"
  by (induction xs) auto

lemma takeWhile_absent_right:
  "b \<notin> set xs \<Longrightarrow> takeWhile (\<lambda>x. x \<noteq> a \<and> x \<noteq> b) xs = takeWhile (\<lambda>x. x \<noteq> a) xs"
  by (induction xs) auto

lemma takeWhile_absent_left:
  "a \<notin> set xs \<Longrightarrow> takeWhile (\<lambda>x. x \<noteq> a \<and> x \<noteq> b) xs = takeWhile (\<lambda>x. x \<noteq> b) xs"
  by (induction xs) auto

lemma task_idx:
  assumes "\<exists>k\<in>set TRF_TASKS. k \<in> set names"
  shows "list_min (map (index names) (filter (\<lambda>k. k \<in> set names) TRF_TASKS)) =
         length (takeWhile (\<lambda>k. k \<notin> set TRF_TASKS) names)"
  using assms
  by (auto simp: TRF_TASKS_def index_takeWhile min_index2 takeWhile_absent_right
      takeWhile_absent_left conj_commute)

lemma setitem_new: "k \<notin> fst ` set d \<Longrightarrow> setitem d k v = d @ [(k, v)]"
  by (induction d) (auto simp: setitem_def)

lemma dict_comp_aux:
  "distinct ks \<Longrightarrow> set ks \<inter> fst ` set d = {} \<Longrightarrow>
   foldl (\<lambda>d k. setitem d k (f k)) d ks = d @ map (\<lambda>k. (k, f k)) ks"
proof (induction ks arbitrary: d)
  case Nil
  then show ?case by simp
next
  case (Cons k ks)
  have u: "setitem d k (f k) = d @ [(k, f k)]"
    using Cons.prems(2) by (simp add: setitem_new)
  show ?case using Cons by (simp add: u)
qed

lemma dict_comp_distinct: "distinct ks \<Longrightarrow> dict_comp f ks = map (\<lambda>k. (k, f k)) ks"
  by (simp add: dict_comp_def dict_comp_aux)

lemma get_default_present:
  "distinct (map fst p) \<Longrightarrow> (k, v) \<in> set p \<Longrightarrow> get_default p k d = v"
  by (simp add: get_default_def)

lemma get_default_absent: "k \<notin> fst ` set p \<Longrightarrow> get_default p k d = d"
  using map_of_eq_None_iff [of p k] by (simp add: get_default_def)

lemma rebuild_sub:
  "distinct (map fst p) \<Longrightarrow> set q \<subseteq> set p \<Longrightarrow>
   map (\<lambda>k. (k, get_default p k d)) (map fst q) = q"
  by (induction q) (auto simp: get_default_present)

lemma insert_at_split:
  "insert_at (length (takeWhile P xs)) k xs = takeWhile P xs @ k # dropWhile P xs"
  by (simp add: insert_at_def takeWhile_eq_take [symmetric] dropWhile_eq_drop [symmetric])

lemma insert_at_prefix: "insert_at (length xs) k (xs @ ys) = xs @ k # ys"
  by (simp add: insert_at_def)

lemma set_split_while: "set xs = set (takeWhile P xs) \<union> set (dropWhile P xs)"
  by (metis set_append takeWhile_dropWhile_id)

lemma completed_names:
  "fold (\<lambda>k names. if k \<notin> set names then insert_at (length (takeWhile P xs)) k names else names)
     (rev TRF_BASES) xs =
   takeWhile P xs @ filter (\<lambda>k. k \<notin> set xs) TRF_BASES @ dropWhile P xs"
  using base_names_differ
  by (auto simp: TRF_BASES_def insert_at_split insert_at_prefix set_split_while [of xs P])

lemma completed_names_distinct:
  assumes d: "distinct xs"
  shows "distinct (takeWhile P xs @ filter (\<lambda>k. k \<notin> set xs) TRF_BASES @ dropWhile P xs)"
proof -
  let ?F = "filter (\<lambda>k. k \<notin> set xs) TRF_BASES"
  have "distinct (takeWhile P xs @ dropWhile P xs)" using d by simp
  then have 1: "distinct (takeWhile P xs)" "distinct (dropWhile P xs)"
    "set (takeWhile P xs) \<inter> set (dropWhile P xs) = {}"
    by (simp_all only: distinct_append)
  have 2: "set (takeWhile P xs) \<subseteq> set xs" "set (dropWhile P xs) \<subseteq> set xs"
    by (auto dest: set_takeWhileD set_dropWhileD)
  have 3: "distinct ?F" using base_names_differ by (simp add: TRF_BASES_def)
  have 4: "set ?F \<inter> set xs = {}" by auto
  have 5: "set (takeWhile P xs) \<inter> set ?F = {}" "set ?F \<inter> set (dropWhile P xs) = {}"
    using 2 4 by blast+
  show ?thesis
    unfolding distinct_append set_append using 1 3 5 by blast
qed

section \<open>Pipeline completion\<close>

lemma complement_with_task:
  assumes d: "distinct (map fst (pipeline cfg))"
    and t: "\<exists>k\<in>set TRF_TASKS. k \<in> set (map fst (pipeline cfg))"
  shows "complement_trf_pipeline cfg = cfg\<lparr>pipeline := completion_spec (pipeline cfg)\<rparr>"
proof -
  let ?p = "pipeline cfg"
  let ?names = "map fst ?p"
  let ?P = "\<lambda>k. k \<notin> set TRF_TASKS"
  let ?f = "\<lambda>k. get_default ?p k []"
  let ?names' = "takeWhile ?P ?names @ filter (\<lambda>k. k \<notin> set ?names) TRF_BASES @ dropWhile ?P ?names"
  let ?tw = "takeWhile (\<lambda>kv. fst kv \<notin> set TRF_TASKS) ?p"
  let ?dw = "dropWhile (\<lambda>kv. fst kv \<notin> set TRF_TASKS) ?p"
  have ne: "map (index ?names) (filter (\<lambda>k. k \<in> set ?names) TRF_TASKS) \<noteq> []"
    using t by (auto simp: filter_empty_conv)
  have c: "complement_trf_pipeline cfg = cfg\<lparr>pipeline := dict_comp ?f ?names'\<rparr>"
    unfolding complement_trf_pipeline_def Let_def
    using ne by (simp only: task_idx [OF t] completed_names if_False)
  have tw: "takeWhile ?P ?names = map fst ?tw"
    by (simp add: takeWhile_map comp_def)
  have dw: "dropWhile ?P ?names = map fst ?dw"
    by (simp add: dropWhile_map comp_def)
  have m: "map (\<lambda>k. (k, ?f k)) (filter (\<lambda>k. k \<notin> set ?names) TRF_BASES) =
           map (\<lambda>k. (k, [])) (missing_bases ?p)"
    by (auto simp: missing_bases_def get_default_absent)
  have "set ?tw \<subseteq> set ?p" by (auto dest: set_takeWhileD)
  then have a: "map (\<lambda>k. (k, ?f k)) (map fst ?tw) = ?tw" by (rule rebuild_sub [OF d])
  have "set ?dw \<subseteq> set ?p" by (auto dest: set_dropWhileD)
  then have b: "map (\<lambda>k. (k, ?f k)) (map fst ?dw) = ?dw" by (rule rebuild_sub [OF d])
  have "dict_comp ?f ?names' = map (\<lambda>k. (k, ?f k)) ?names'"
    using d by (rule dict_comp_distinct [OF completed_names_distinct])
  also have "\<dots> = completion_spec ?p"
    unfolding completion_spec_def map_append m tw dw a b ..
  finally show ?thesis using c by simp
qed

lemma complement_without_task:
  "\<not> (\<exists>k\<in>set TRF_TASKS. k \<in> set (map fst (pipeline cfg))) \<Longrightarrow>
   complement_trf_pipeline cfg = cfg"
  by (simp add: complement_trf_pipeline_def filter_empty_conv)

lemma completion_spec_keys:
  "map fst (completion_spec p) =
   takeWhile (\<lambda>k. k \<notin> set TRF_TASKS) (map fst p) @ missing_bases p @
   dropWhile (\<lambda>k. k \<notin> set TRF_TASKS) (map fst p)"
  by (simp add: completion_spec_def takeWhile_map dropWhile_map comp_def)

lemma completion_spec_distinct:
  "distinct (map fst p) \<Longrightarrow> distinct (map fst (completion_spec p))"
  unfolding completion_spec_keys missing_bases_def by (rule completed_names_distinct)

lemma completion_spec_set:
  "set (completion_spec p) = set p \<union> (\<lambda>k. (k, [])) ` set (missing_bases p)"
  using set_split_while [of p "\<lambda>kv. fst kv \<notin> set TRF_TASKS"]
  by (auto simp: completion_spec_def)

lemma completion_spec_filter:
  "filter (\<lambda>kv. fst kv \<in> set (map fst p)) (completion_spec p) = p"
proof -
  let ?P = "\<lambda>kv. fst kv \<notin> set TRF_TASKS"
  have 1: "filter (\<lambda>kv. fst kv \<in> set (map fst p)) (takeWhile ?P p) = takeWhile ?P p"
    by (rule filter_True) (auto dest: set_takeWhileD)
  have 2: "filter (\<lambda>kv. fst kv \<in> set (map fst p)) (dropWhile ?P p) = dropWhile ?P p"
    by (rule filter_True) (auto dest: set_dropWhileD)
  have 3: "filter (\<lambda>kv. fst kv \<in> set (map fst p)) (map (\<lambda>k. (k, [])) (missing_bases p)) = []"
    by (auto simp: missing_bases_def filter_empty_conv)
  show ?thesis
    unfolding completion_spec_def filter_append 1 2 3 by simp
qed

lemmas stage_name_defs =
  TRF_PIPES_def TRF_BASES_def TRF_TASKS_def TRANSFORMERS_TOKENIZER_def
  TRANSFORMERS_MODEL_def TRANSFORMERS_SEQ_CLASSIFIER_def TRANSFORMERS_NER_def

lemma first_task_heads_rest:
  assumes "\<exists>k\<in>set TRF_TASKS. k \<in> set (map fst p)"
  shows "\<exists>k s rest. dropWhile (\<lambda>kv. fst kv \<notin> set TRF_TASKS) p = (k, s) # rest \<and> k \<in> set TRF_TASKS"
proof -
  let ?dw = "dropWhile (\<lambda>kv. fst kv \<notin> set TRF_TASKS) p"
  from assms have "?dw \<noteq> []" by (auto simp: dropWhile_eq_Nil_conv)
  then obtain kv rest where e: "?dw = kv # rest" by (cases ?dw) auto
  then have "\<not> (fst kv \<notin> set TRF_TASKS)" using hd_dropWhile [of "\<lambda>kv. fst kv \<notin> set TRF_TASKS" p]
    by simp
  then show ?thesis using e by (cases kv) auto
qed

text \<open>
  C1: for a pipeline with a task stage and with one or both base stages absent, completion
  yields the stages before the earliest task stage, then exactly the missing base stages
  with empty settings (tokenizer before base model), then the earliest task stage and
  everything after it. The keys stay distinct, and every stage that was there keeps its
  settings.
\<close>

theorem completion_inserts_missing_bases:
  assumes d: "distinct (map fst (pipeline cfg))"
    and t: "\<exists>k\<in>set TRF_TASKS. k \<in> set (map fst (pipeline cfg))"
    and m: "missing_bases (pipeline cfg) \<noteq> []"
  shows "complement_trf_pipeline cfg =
           cfg\<lparr>pipeline :=
             takeWhile (\<lambda>kv. fst kv \<notin> set TRF_TASKS) (pipeline cfg) @
             map (\<lambda>k. (k, [])) (missing_bases (pipeline cfg)) @
             dropWhile (\<lambda>kv. fst kv \<notin> set TRF_TASKS) (pipeline cfg)\<rparr> \<and>
         (\<exists>k s rest. dropWhile (\<lambda>kv. fst kv \<notin> set TRF_TASKS) (pipeline cfg) = (k, s) # rest \<and>
            k \<in> set TRF_TASKS) \<and>
         (\<forall>kv\<in>set (takeWhile (\<lambda>kv. fst kv \<notin> set TRF_TASKS) (pipeline cfg)).
            fst kv \<notin> set TRF_TASKS) \<and>
         (missing_bases (pipeline cfg) = [TRANSFORMERS_TOKENIZER, TRANSFORMERS_MODEL] \<or>
          missing_bases (pipeline cfg) = [TRANSFORMERS_TOKENIZER] \<or>
          missing_bases (pipeline cfg) = [TRANSFORMERS_MODEL]) \<and>
         set (missing_bases (pipeline cfg)) =
           {k \<in> set TRF_BASES. k \<notin> set (map fst (pipeline cfg))} \<and>
         distinct (map fst (pipeline (complement_trf_pipeline cfg))) \<and>
         set (map fst (pipeline (complement_trf_pipeline cfg))) =
           set (map fst (pipeline cfg)) \<union> set (missing_bases (pipeline cfg)) \<and>
         (\<forall>k\<in>set (missing_bases (pipeline cfg)).
            map_of (pipeline (complement_trf_pipeline cfg)) k = Some []) \<and>
         (\<forall>kv\<in>set (pipeline cfg).
            map_of (pipeline (complement_trf_pipeline cfg)) (fst kv) = Some (snd kv))"
proof -
  let ?p = "pipeline cfg"
  have c: "complement_trf_pipeline cfg = cfg\<lparr>pipeline := completion_spec ?p\<rparr>"
    using d t by (rule complement_with_task)
  then have pc: "pipeline (complement_trf_pipeline cfg) = completion_spec ?p" by simp
  have dc: "distinct (map fst (completion_spec ?p))"
    using d by (rule completion_spec_distinct)
  have 1: "complement_trf_pipeline cfg =
           cfg\<lparr>pipeline :=
             takeWhile (\<lambda>kv. fst kv \<notin> set TRF_TASKS) ?p @
             map (\<lambda>k. (k, [])) (missing_bases ?p) @
             dropWhile (\<lambda>kv. fst kv \<notin> set TRF_TASKS) ?p\<rparr>"
    using c by (simp only: completion_spec_def)
  have 2: "\<exists>k s rest. dropWhile (\<lambda>kv. fst kv \<notin> set TRF_TASKS) ?p = (k, s) # rest \<and>
            k \<in> set TRF_TASKS"
    using t by (rule first_task_heads_rest)
  have 3: "\<forall>kv\<in>set (takeWhile (\<lambda>kv. fst kv \<notin> set TRF_TASKS) ?p). fst kv \<notin> set TRF_TASKS"
    by (auto dest: set_takeWhileD)
  have 4: "missing_bases ?p = [TRANSFORMERS_TOKENIZER, TRANSFORMERS_MODEL] \<or>
          missing_bases ?p = [TRANSFORMERS_TOKENIZER] \<or>
          missing_bases ?p = [TRANSFORMERS_MODEL]"
    using m by (auto simp: missing_bases_def TRF_BASES_def split: if_splits)
  have 5: "set (missing_bases ?p) = {k \<in> set TRF_BASES. k \<notin> set (map fst ?p)}"
    by (auto simp: missing_bases_def)
  have 6: "distinct (map fst (pipeline (complement_trf_pipeline cfg)))"
    using dc pc by simp
  have 7: "set (map fst (pipeline (complement_trf_pipeline cfg))) =
           set (map fst ?p) \<union> set (missing_bases ?p)"
    unfolding pc completion_spec_keys set_append
    using set_split_while [of "map fst ?p" "\<lambda>k. k \<notin> set TRF_TASKS"] by blast
  have 8: "\<forall>k\<in>set (missing_bases ?p). map_of (pipeline (complement_trf_pipeline cfg)) k = Some []"
    unfolding pc using dc by (auto simp: completion_spec_set)
  have 9: "\<forall>kv\<in>set ?p. map_of (pipeline (complement_trf_pipeline cfg)) (fst kv) = Some (snd kv)"
    unfolding pc using dc by (auto simp: completion_spec_set)
  show ?thesis using 1 2 3 4 5 6 7 8 9 by blast
qed

text \<open>The theorem at a pipeline that lacks the tokenizer.\<close>

theorem completion_inserts_missing_bases_witness:
  "distinct (map fst (pipeline completion_example)) \<and>
   (\<exists>k\<in>set TRF_TASKS. k \<in> set (map fst (pipeline completion_example))) \<and>
   missing_bases (pipeline completion_example) = [TRANSFORMERS_TOKENIZER] \<and>
   pipeline (complement_trf_pipeline completion_example) =
     [(''sentencizer'', [(''punct_chars'', VList [VStr ''.''])]),
      (TRANSFORMERS_MODEL, [(KEY, VStr ''bert'')]),
      (TRANSFORMERS_TOKENIZER, []),
      (TRANSFORMERS_NER, [(LABELS, VList [VStr ''PERSON''])]),
      (TRANSFORMERS_SEQ_CLASSIFIER, [])]"
proof -
  have d: "distinct (map fst (pipeline completion_example))"
    by (simp add: completion_example_def stage_name_defs)
  have t: "\<exists>k\<in>set TRF_TASKS. k \<in> set (map fst (pipeline completion_example))"
    by (simp add: completion_example_def stage_name_defs)
  have m: "missing_bases (pipeline completion_example) = [TRANSFORMERS_TOKENIZER]"
    by (simp add: completion_example_def missing_bases_def stage_name_defs)
  then have m': "missing_bases (pipeline completion_example) \<noteq> []" by simp
  have "complement_trf_pipeline completion_example =
      completion_example\<lparr>pipeline :=
             takeWhile (\<lambda>kv. fst kv \<notin> set TRF_TASKS) (pipeline completion_example) @
             map (\<lambda>k. (k, [])) (missing_bases (pipeline completion_example)) @
             dropWhile (\<lambda>kv. fst kv \<notin> set TRF_TASKS) (pipeline completion_example)\<rparr>"
    using completion_inserts_missing_bases [OF d t m'] by blast
  then have "pipeline (complement_trf_pipeline completion_example) =
     [(''sentencizer'', [(''punct_chars'', VList [VStr ''.''])]),
      (TRANSFORMERS_MODEL, [(KEY, VStr ''bert'')]),
      (TRANSFORMERS_TOKENIZER, []),
      (TRANSFORMERS_NER, [(LABELS, VList [VStr ''PERSON''])]),
      (TRANSFORMERS_SEQ_CLASSIFIER, [])]"
    unfolding m by (simp add: completion_example_def stage_name_defs)
  then show ?thesis using d t m by blast
qed

text \<open>
  C6: a pipeline that has a task stage and both base stages is returned unchanged by
  completion, and so is a pipeline without any task stage.
\<close>

theorem completion_noop:
  assumes d: "distinct (map fst (pipeline cfg))"
  shows "((\<exists>k\<in>set TRF_TASKS. k \<in> set (map fst (pipeline cfg))) \<and>
          set TRF_BASES \<subseteq> set (map fst (pipeline cfg)) \<longrightarrow>
            complement_trf_pipeline cfg = cfg) \<and>
         (\<not> (\<exists>k\<in>set TRF_TASKS. k \<in> set (map fst (pipeline cfg))) \<longrightarrow>
            complement_trf_pipeline cfg = cfg)"
proof (intro conjI impI)
  assume a: "(\<exists>k\<in>set TRF_TASKS. k \<in> set (map fst (pipeline cfg))) \<and>
          set TRF_BASES \<subseteq> set (map fst (pipeline cfg))"
  then have "missing_bases (pipeline cfg) = []"
    by (auto simp: missing_bases_def filter_empty_conv)
  then have "completion_spec (pipeline cfg) = pipeline cfg"
    by (simp add: completion_spec_def)
  moreover have "complement_trf_pipeline cfg = cfg\<lparr>pipeline := completion_spec (pipeline cfg)\<rparr>"
    using d a by (simp only: complement_with_task)
  ultimately show "complement_trf_pipeline cfg = cfg" by simp
next
  assume "\<not> (\<exists>k\<in>set TRF_TASKS. k \<in> set (map fst (pipeline cfg)))"
  then show "complement_trf_pipeline cfg = cfg" by (rule complement_without_task)
qed

text \<open>The theorem at a complete pipeline and at a pipeline without task stage.\<close>

theorem completion_noop_witness:
  "distinct (map fst (pipeline complete_example)) \<and>
   (\<exists>k\<in>set TRF_TASKS. k \<in> set (map fst (pipeline complete_example))) \<and>
   set TRF_BASES \<subseteq> set (map fst (pipeline complete_example)) \<and>
   complement_trf_pipeline complete_example = complete_example \<and>
   distinct (map fst (pipeline plain_example)) \<and>
   \<not> (\<exists>k\<in>set TRF_TASKS. k \<in> set (map fst (pipeline plain_example))) \<and>
   complement_trf_pipeline plain_example = plain_example"
proof -
  have d1: "distinct (map fst (pipeline complete_example))"
    by (simp add: complete_example_def stage_name_defs)
  have t1: "\<exists>k\<in>set TRF_TASKS. k \<in> set (map fst (pipeline complete_example))"
    by (simp add: complete_example_def stage_name_defs)
  have b1: "set TRF_BASES \<subseteq> set (map fst (pipeline complete_example))"
    by (simp add: complete_example_def stage_name_defs)
  have d2: "distinct (map fst (pipeline plain_example))"
    by (simp add: plain_example_def stage_name_defs)
  have t2: "\<not> (\<exists>k\<in>set TRF_TASKS. k \<in> set (map fst (pipeline plain_example)))"
    by (simp add: plain_example_def stage_name_defs)
  show ?thesis
    using completion_noop [OF d1] completion_noop [OF d2] d1 t1 b1 d2 t2 by blast
qed

section \<open>Backend-mode correction\<close>

text \<open>
  C5: with an advanced-backend stage in the pipeline the pass sets the torch flag, whatever
  it was, and changes nothing else; without one it returns the configuration as it is. A
  flag that is set is never cleared.
\<close>

theorem correct_torch_flag:
  "(set (map fst (pipeline cfg)) \<inter> set TRF_PIPES \<noteq> {} \<longrightarrow>
      torch (lang (correct_torch cfg)) \<and>
      correct_torch cfg = cfg\<lparr>lang := (lang cfg)\<lparr>torch := True\<rparr>\<rparr>) \<and>
   (set (map fst (pipeline cfg)) \<inter> set TRF_PIPES = {} \<longrightarrow> correct_torch cfg = cfg) \<and>
   (torch (lang cfg) \<longrightarrow> torch (lang (correct_torch cfg))) \<and>
   pipeline (correct_torch cfg) = pipeline cfg \<and>
   name (correct_torch cfg) = name cfg"
  by (simp add: correct_torch_def)

text \<open>The theorem with and without an advanced-backend stage.\<close>

theorem correct_torch_flag_witness:
  "set (map fst (pipeline complete_example)) \<inter> set TRF_PIPES \<noteq> {} \<and>
   \<not> torch (lang complete_example) \<and>
   torch (lang (correct_torch complete_example)) \<and>
   set (map fst (pipeline (plain_example\<lparr>pipeline := [(''sentencizer'', [])]\<rparr>))) \<inter>
     set TRF_PIPES = {} \<and>
   \<not> torch (lang (correct_torch (plain_example\<lparr>pipeline := [(''sentencizer'', [])]\<rparr>))) \<and>
   torch (lang (correct_torch (plain_example\<lparr>lang := (lang plain_example)\<lparr>torch := True\<rparr>,
       pipeline := [(''sentencizer'', [])]\<rparr>)))"
proof -
  have 1: "set (map fst (pipeline complete_example)) \<inter> set TRF_PIPES \<noteq> {}"
    by (simp add: complete_example_def stage_name_defs)
  have 2: "set (map fst (pipeline (plain_example\<lparr>pipeline := [(''sentencizer'', [])]\<rparr>))) \<inter>
     set TRF_PIPES = {}"
    by (simp add: stage_name_defs)
  have 3: "\<not> torch (lang complete_example)" "\<not> torch (lang plain_example)"
    by (simp_all add: complete_example_def plain_example_def)
  show ?thesis
    using correct_torch_flag [of complete_example]
      correct_torch_flag [of "plain_example\<lparr>pipeline := [(''sentencizer'', [])]\<rparr>"]
      correct_torch_flag [of "plain_example\<lparr>lang := (lang plain_example)\<lparr>torch := True\<rparr>,
       pipeline := [(''sentencizer'', [])]\<rparr>"]
      1 2 3 by simp
qed

section \<open>Identifier propagation\<close>

lemma getitem_setitem: "getitem (setitem v k x) k = x"
  by (simp add: getitem_def setitem_def update_conv')

lemma getitem_setitem_other: "k' \<noteq> k \<Longrightarrow> getitem (setitem v k x) k' = getitem v k'"
  by (simp add: getitem_def setitem_def update_conv')

lemma getitem_absent: "k \<notin> fst ` set v \<Longrightarrow> getitem v k = VNone"
  using map_of_eq_None_iff [of v k] by (simp add: getitem_def)

lemma scan_fold:
  "fold scan_step p v0 = (if declared_names p = [] then v0 else last (declared_names p))"
proof (induction p arbitrary: v0)
  case Nil
  then show ?case by (simp add: declared_names_def)
next
  case (Cons kv p)
  have t: "declared_names (kv # p) =
      (if fst kv \<in> set TRF_PIPES \<and> truthy (getitem (snd kv) KEY)
       then getitem (snd kv) KEY # declared_names p else declared_names p)"
    by (simp add: declared_names_def)
  show ?case
    unfolding fold_Cons comp_def Cons.IH t by (simp add: scan_step_def)
qed

lemma scan_name_last:
  "declared_names p \<noteq> [] \<Longrightarrow> scan_name p = last (declared_names p)"
  by (simp add: scan_name_def scan_fold)

lemma scan_name_none: "declared_names p = [] \<Longrightarrow> scan_name p = VStr []"
  by (simp add: scan_name_def scan_fold)

lemma declared_truthy: "x \<in> set (declared_names p) \<Longrightarrow> truthy x"
  by (auto simp: declared_names_def)

lemma declared_has_pipe:
  "declared_names p \<noteq> [] \<Longrightarrow> set (map fst p) \<inter> set TRF_PIPES \<noteq> {}"
  by (auto simp: declared_names_def filter_empty_conv)

lemma propagate_declared:
  assumes "declared_names (pipeline cfg) \<noteq> []"
  shows "complement_trf_name pretty cfg =
     Inr (cfg\<lparr>pipeline :=
       map (\<lambda>(k, v). if k \<in> set TRF_PIPES
                      then (k, setitem v KEY (last (declared_names (pipeline cfg))))
                      else (k, v))
         (pipeline cfg)\<rparr>)"
proof -
  have "truthy (last (declared_names (pipeline cfg)))"
    using assms last_in_set [of "declared_names (pipeline cfg)"] by (blast intro: declared_truthy)
  then show ?thesis
    using assms declared_has_pipe [OF assms]
    by (simp add: complement_trf_name_def scan_name_last)
qed

lemma propagate_undeclared:
  assumes "set (map fst (pipeline cfg)) \<inter> set TRF_PIPES \<noteq> {}"
    and "declared_names (pipeline cfg) = []"
  shows "complement_trf_name pretty cfg =
     Inl (ValueError (missing_name_message (pretty (pipeline cfg))))"
  using assms by (simp add: complement_trf_name_def scan_name_none)

lemma propagate_no_pipe:
  "set (map fst (pipeline cfg)) \<inter> set TRF_PIPES = {} \<Longrightarrow> complement_trf_name pretty cfg = Inr cfg"
  by (simp add: complement_trf_name_def)

lemma propagate_keys:
  "complement_trf_name pretty cfg = Inr cfg' \<Longrightarrow>
   map fst (pipeline cfg') = map fst (pipeline cfg) \<and> lang cfg' = lang cfg \<and> name cfg' = name cfg"
  by (auto simp: complement_trf_name_def Let_def comp_def case_prod_beta split: if_splits)

lemma propagate_frame:
  "complement_trf_name pretty cfg = Inr cfg' \<Longrightarrow> k \<notin> set TRF_PIPES \<Longrightarrow>
   map_of (pipeline cfg') k = map_of (pipeline cfg) k"
proof -
  have m: "\<And>p x. k \<notin> set TRF_PIPES \<Longrightarrow>
     map_of (map (\<lambda>(k, v). if k \<in> set TRF_PIPES then (k, setitem v KEY x) else (k, v)) p) k =
     map_of p k"
    subgoal for p x by (induction p) auto
    done
  assume "complement_trf_name pretty cfg = Inr cfg'" "k \<notin> set TRF_PIPES"
  then show ?thesis
    by (auto simp: complement_trf_name_def Let_def m split: if_splits)
qed

lemma last_declaring_stage:
  assumes "declared_names p \<noteq> []"
  shows "\<exists>pre kv post. p = pre @ kv # post \<and> fst kv \<in> set TRF_PIPES \<and>
           truthy (getitem (snd kv) KEY) \<and> getitem (snd kv) KEY = last (declared_names p) \<and>
           (\<forall>kv'\<in>set post. \<not> (fst kv' \<in> set TRF_PIPES \<and> truthy (getitem (snd kv') KEY)))"
proof -
  let ?P = "\<lambda>kv. fst kv \<in> set TRF_PIPES \<and> truthy (getitem (snd kv) KEY)"
  from assms have "\<exists>x\<in>set p. ?P x"
    by (auto simp: declared_names_def filter_empty_conv)
  then obtain pre kv post where s: "p = pre @ kv # post" "?P kv" "\<forall>z\<in>set post. \<not> ?P z"
    using split_list_last_prop [of p ?P] by blast
  have "filter ?P post = []" using s(3) by (auto simp: filter_empty_conv)
  then have "last (declared_names p) = getitem (snd kv) KEY"
    using s(1,2) by (simp add: declared_names_def)
  then show ?thesis using s by metis
qed

text \<open>
  C2: when two advanced-backend stages declare different non-empty identifiers, propagation
  succeeds; the value it takes is the one of the last declaring stage in pipeline order,
  and it is written onto every advanced-backend stage, over whatever was there, so that
  afterwards all of them hold that one value.
\<close>

theorem propagation_last_wins:
  assumes a: "a \<in> set (declared_names (pipeline cfg))"
    and b: "b \<in> set (declared_names (pipeline cfg))"
    and ab: "a \<noteq> b"
  shows "\<exists>cfg' x.
           complement_trf_name pretty cfg = Inr cfg' \<and>
           x = last (declared_names (pipeline cfg)) \<and> truthy x \<and>
           (\<exists>pre kv post. pipeline cfg = pre @ kv # post \<and> fst kv \<in> set TRF_PIPES \<and>
              getitem (snd kv) KEY = x \<and>
              (\<forall>kv'\<in>set post. \<not> (fst kv' \<in> set TRF_PIPES \<and> truthy (getitem (snd kv') KEY)))) \<and>
           cfg' = cfg\<lparr>pipeline :=
              map (\<lambda>(k, v). if k \<in> set TRF_PIPES then (k, setitem v KEY x) else (k, v))
                (pipeline cfg)\<rparr> \<and>
           (\<forall>kv\<in>set (pipeline cfg'). fst kv \<in> set TRF_PIPES \<longrightarrow> getitem (snd kv) KEY = x)"
proof -
  let ?x = "last (declared_names (pipeline cfg))"
  let ?cfg' = "cfg\<lparr>pipeline :=
              map (\<lambda>(k, v). if k \<in> set TRF_PIPES then (k, setitem v KEY ?x) else (k, v))
                (pipeline cfg)\<rparr>"
  have ne: "declared_names (pipeline cfg) \<noteq> []" using a by auto
  have 1: "complement_trf_name pretty cfg = Inr ?cfg'"
    using ne by (rule propagate_declared)
  have 2: "truthy ?x"
    using ne last_in_set [of "declared_names (pipeline cfg)"] by (blast intro: declared_truthy)
  have 3: "\<exists>pre kv post. pipeline cfg = pre @ kv # post \<and> fst kv \<in> set TRF_PIPES \<and>
              getitem (snd kv) KEY = ?x \<and>
              (\<forall>kv'\<in>set post. \<not> (fst kv' \<in> set TRF_PIPES \<and> truthy (getitem (snd kv') KEY)))"
    using last_declaring_stage [OF ne] by blast
  have 4: "\<forall>kv\<in>set (pipeline ?cfg'). fst kv \<in> set TRF_PIPES \<longrightarrow> getitem (snd kv) KEY = ?x"
    by (auto simp: getitem_setitem split: if_splits)
  show ?thesis using 1 2 3 4 by blast
qed

text \<open>The theorem at a pipeline whose tokenizer and base model declare different names.\<close>

theorem propagation_last_wins_witness:
  "VStr ''bert'' \<in> set (declared_names (pipeline two_names_example)) \<and>
   VStr ''xlnet'' \<in> set (declared_names (pipeline two_names_example)) \<and>
   last (declared_names (pipeline two_names_example)) = VStr ''xlnet'' \<and>
   complement_trf_name example_pretty two_names_example =
     Inr (two_names_example\<lparr>pipeline :=
        [(TRANSFORMERS_TOKENIZER, [(KEY, VStr ''xlnet''), (''lower'', VBool True)]),
         (''sentencizer'', [(KEY, VStr ''other'')]),
         (TRANSFORMERS_MODEL, [(KEY, VStr ''xlnet'')]),
         (TRANSFORMERS_NER, [(LABELS, VList [VStr ''PERSON'']), (KEY, VStr ''xlnet'')])]\<rparr>)"
proof -
  have d: "declared_names (pipeline two_names_example) = [VStr ''bert'', VStr ''xlnet'']"
    by (simp add: two_names_example_def declared_names_def getitem_def stage_name_defs
        KEY_def LABELS_def)
  have a: "VStr ''bert'' \<in> set (declared_names (pipeline two_names_example))"
    and b: "VStr ''xlnet'' \<in> set (declared_names (pipeline two_names_example))"
    and ab: "VStr ''bert'' \<noteq> VStr ''xlnet''"
    unfolding d by simp_all
  have l: "last (declared_names (pipeline two_names_example)) = VStr ''xlnet''"
    unfolding d by simp
  have "complement_trf_name example_pretty two_names_example =
     Inr (two_names_example\<lparr>pipeline :=
              map (\<lambda>(k, v). if k \<in> set TRF_PIPES then (k, setitem v KEY (VStr ''xlnet'')) else (k, v))
                (pipeline two_names_example)\<rparr>)"
    using propagation_last_wins [OF a b ab, of example_pretty] unfolding l by blast
  also have "map (\<lambda>(k, v). if k \<in> set TRF_PIPES then (k, setitem v KEY (VStr ''xlnet'')) else (k, v))
                (pipeline two_names_example) =
        [(TRANSFORMERS_TOKENIZER, [(KEY, VStr ''xlnet''), (''lower'', VBool True)]),
         (''sentencizer'', [(KEY, VStr ''other'')]),
         (TRANSFORMERS_MODEL, [(KEY, VStr ''xlnet'')]),
         (TRANSFORMERS_NER, [(LABELS, VList [VStr ''PERSON'']), (KEY, VStr ''xlnet'')])]"
    by (simp add: two_names_example_def setitem_def stage_name_defs KEY_def LABELS_def)
  finally show ?thesis using a b l by blast
qed

subsection \<open>Stages with a null settings node\<close>

lemma scan_nodes_with_settings:
  "scan_nodes (with_settings p) VAL = Inr (fold scan_step p VAL)"
  by (induction p arbitrary: VAL) (auto simp: with_settings_def scan_step_def)

lemma write_nodes_with_settings:
  "write_nodes VAL (with_settings p) =
   Inr (with_settings
     (map (\<lambda>(k, v). if k \<in> set TRF_PIPES then (k, setitem v KEY VAL) else (k, v)) p))"
  by (induction p) (auto simp: with_settings_def)

text \<open>
  On a pipeline in which every stage has a mapping, the pass on settings nodes is the pass
  of the first model.
\<close>

lemma complement_trf_name_nodes_with_settings:
  "complement_trf_name_nodes pretty (with_settings (pipeline cfg)) =
     (case complement_trf_name (\<lambda>p. pretty (with_settings p)) cfg of
        Inl e \<Rightarrow> Inl e
      | Inr cfg' \<Rightarrow> Inr (with_settings (pipeline cfg')))"
proof -
  have k: "map fst (with_settings (pipeline cfg)) = map fst (pipeline cfg)"
    by (simp add: with_settings_def comp_def)
  show ?thesis
    unfolding complement_trf_name_nodes_def complement_trf_name_def k
      scan_nodes_with_settings write_nodes_with_settings scan_name_def Let_def
    by simp
qed

lemma scan_nodes_null:
  "(k, None) \<in> set p \<Longrightarrow> k \<in> set TRF_PIPES \<Longrightarrow> scan_nodes p VAL = Inl null_subscript"
  by (induction p arbitrary: VAL) (auto split: option.splits)

lemma complement_trf_name_nodes_null:
  "(k, None) \<in> set p \<Longrightarrow> k \<in> set TRF_PIPES \<Longrightarrow>
   complement_trf_name_nodes pretty p = Inl null_subscript"
proof -
  assume a: "(k, None) \<in> set p" "k \<in> set TRF_PIPES"
  then have "set (map fst p) \<inter> set TRF_PIPES \<noteq> {}" by force
  then show ?thesis
    using a by (simp add: complement_trf_name_nodes_def scan_nodes_null)
qed

text \<open>
  C3: the claim asks for the missing-identifier error on every pipeline that has an
  advanced-backend stage and no declared identifier. The pass does raise it when the
  base-model stage has empty settings; when the settings node of that stage is null, the
  scan subscripts the null and the pass ends in a type error instead.
\<close>

theorem propagation_null_settings:
  "complement_trf_name_nodes pretty [(TRANSFORMERS_MODEL, Some [])] =
     Inl (ValueError (missing_name_message (pretty [(TRANSFORMERS_MODEL, Some [])]))) \<and>
   complement_trf_name_nodes pretty [(TRANSFORMERS_MODEL, None)] =
     Inl (TypeError ''NoneType object is not subscriptable'')"
  by (simp add: complement_trf_name_nodes_def getitem_def null_subscript_def stage_name_defs)

text \<open>
  C10: the claim allows the pass no error but the missing-identifier error on a pipeline
  with an advanced-backend stage whose settings lack the identifier key. Here the
  tokenizer stage is such a stage; the null settings node of the base-model stage is
  subscripted by the scan, and the pass ends in a type error.
\<close>

theorem propagation_null_beside_absent_key:
  "complement_trf_name_nodes pretty
     [(TRANSFORMERS_MODEL, None), (TRANSFORMERS_TOKENIZER, Some [])] =
     Inl (TypeError ''NoneType object is not subscriptable'')"
  by (simp add: complement_trf_name_nodes_def null_subscript_def stage_name_defs)

section \<open>Label resolution\<close>

lemma setitem_present_keys: "map_of p n = Some s \<Longrightarrow> map fst (setitem p n s') = map fst p"
  by (auto simp: setitem_def update_keys dest: map_of_SomeD intro: rev_image_eqI)

lemma map_of_setitem: "map_of (setitem p n s') = (map_of p)(n \<mapsto> s')"
  by (simp add: setitem_def update_conv')

lemma resolve_label_cases:
  "resolve_label b g cfg =
     (case map_of (pipeline cfg) TRANSFORMERS_NER of
        None \<Rightarrow>
          (case map_of (pipeline cfg) TRANSFORMERS_SEQ_CLASSIFIER of
             None \<Rightarrow> Inr cfg
           | Some seq \<Rightarrow>
               if seq = [] then Inr cfg
               else (case g (getitem seq LABELS) of
                       Inl e \<Rightarrow> Inl e
                     | Inr l \<Rightarrow> Inr (cfg\<lparr>pipeline :=
                         setitem (pipeline cfg) TRANSFORMERS_SEQ_CLASSIFIER (setitem seq LABELS l)\<rparr>)))
      | Some ner \<Rightarrow>
          if ner = [] then
            (case map_of (pipeline cfg) TRANSFORMERS_SEQ_CLASSIFIER of
               None \<Rightarrow> Inr cfg
             | Some seq \<Rightarrow>
                 if seq = [] then Inr cfg
                 else (case g (getitem seq LABELS) of
                         Inl e \<Rightarrow> Inl e
                       | Inr l \<Rightarrow> Inr (cfg\<lparr>pipeline :=
                           setitem (pipeline cfg) TRANSFORMERS_SEQ_CLASSIFIER (setitem seq LABELS l)\<rparr>)))
          else
            (case b (getitem ner LABELS) of
               Inl e \<Rightarrow> Inl e
             | Inr l \<Rightarrow>
                 (case map_of (pipeline cfg) TRANSFORMERS_SEQ_CLASSIFIER of
                    None \<Rightarrow> Inr (cfg\<lparr>pipeline :=
                       setitem (pipeline cfg) TRANSFORMERS_NER (setitem ner LABELS l)\<rparr>)
                  | Some seq \<Rightarrow>
                      if seq = [] then Inr (cfg\<lparr>pipeline :=
                         setitem (pipeline cfg) TRANSFORMERS_NER (setitem ner LABELS l)\<rparr>)
                      else (case g (getitem seq LABELS) of
                              Inl e \<Rightarrow> Inl e
                            | Inr l' \<Rightarrow> Inr (cfg\<lparr>pipeline :=
                                setitem (setitem (pipeline cfg) TRANSFORMERS_NER (setitem ner LABELS l))
                                  TRANSFORMERS_SEQ_CLASSIFIER (setitem seq LABELS l')\<rparr>)))))"
  using task_names_differ
  by (simp add: resolve_label_def Let_def map_of_setitem split: option.split sum.split)

lemma resolve_label_result:
  assumes r: "resolve_label b g cfg = Inr cfg'"
  shows "stage_resolved b (map_of (pipeline cfg) TRANSFORMERS_NER)
           (map_of (pipeline cfg') TRANSFORMERS_NER)"
    and "stage_resolved g (map_of (pipeline cfg) TRANSFORMERS_SEQ_CLASSIFIER)
           (map_of (pipeline cfg') TRANSFORMERS_SEQ_CLASSIFIER)"
    and "\<forall>k. k \<noteq> TRANSFORMERS_NER \<and> k \<noteq> TRANSFORMERS_SEQ_CLASSIFIER \<longrightarrow>
           map_of (pipeline cfg') k = map_of (pipeline cfg) k"
    and "map fst (pipeline cfg') = map fst (pipeline cfg)"
    and "lang cfg' = lang cfg" and "name cfg' = name cfg"
  using r task_names_differ unfolding resolve_label_cases stage_resolved_def
  by (auto simp: map_of_setitem setitem_present_keys
      split: option.splits sum.splits if_splits)

lemma resolve_label_returns:
  "(\<exists>cfg'. resolve_label b g cfg = Inr cfg') \<longleftrightarrow>
   routine_succeeds b (map_of (pipeline cfg) TRANSFORMERS_NER) \<and>
   routine_succeeds g (map_of (pipeline cfg) TRANSFORMERS_SEQ_CLASSIFIER)"
  unfolding resolve_label_cases routine_succeeds_def
  by (auto split: option.splits sum.splits if_splits)

lemma resolve_label_untouched:
  "(map_of (pipeline cfg) TRANSFORMERS_NER = None \<or>
    map_of (pipeline cfg) TRANSFORMERS_NER = Some []) \<Longrightarrow>
   (map_of (pipeline cfg) TRANSFORMERS_SEQ_CLASSIFIER = None \<or>
    map_of (pipeline cfg) TRANSFORMERS_SEQ_CLASSIFIER = Some []) \<Longrightarrow>
   resolve_label b g cfg = Inr cfg"
  unfolding resolve_label_cases by auto

text \<open>
  C7: when label resolution returns, the token-labeler stage holds the BILUO routine's
  result for its labels and the sequence-classifier stage the label routine's result for
  its labels, each exactly when that stage is present with non-empty settings; a stage
  that is absent or has empty settings is as before, each stage's result depends on that
  stage alone, and all other stages, the key order and the rest of the configuration are
  as before. Resolution returns exactly when the routines succeed where they are called,
  and with both stages absent or empty it returns the configuration unchanged.
\<close>

theorem label_resolution:
  "(\<forall>cfg'. resolve_label get_biluo_labels get_labels cfg = Inr cfg' \<longrightarrow>
      stage_resolved get_biluo_labels (map_of (pipeline cfg) TRANSFORMERS_NER)
        (map_of (pipeline cfg') TRANSFORMERS_NER) \<and>
      stage_resolved get_labels (map_of (pipeline cfg) TRANSFORMERS_SEQ_CLASSIFIER)
        (map_of (pipeline cfg') TRANSFORMERS_SEQ_CLASSIFIER) \<and>
      (\<forall>k. k \<noteq> TRANSFORMERS_NER \<and> k \<noteq> TRANSFORMERS_SEQ_CLASSIFIER \<longrightarrow>
         map_of (pipeline cfg') k = map_of (pipeline cfg) k) \<and>
      map fst (pipeline cfg') = map fst (pipeline cfg) \<and>
      lang cfg' = lang cfg \<and> name cfg' = name cfg) \<and>
   ((\<exists>cfg'. resolve_label get_biluo_labels get_labels cfg = Inr cfg') \<longleftrightarrow>
      routine_succeeds get_biluo_labels (map_of (pipeline cfg) TRANSFORMERS_NER) \<and>
      routine_succeeds get_labels (map_of (pipeline cfg) TRANSFORMERS_SEQ_CLASSIFIER)) \<and>
   ((map_of (pipeline cfg) TRANSFORMERS_NER = None \<or>
     map_of (pipeline cfg) TRANSFORMERS_NER = Some []) \<and>
    (map_of (pipeline cfg) TRANSFORMERS_SEQ_CLASSIFIER = None \<or>
     map_of (pipeline cfg) TRANSFORMERS_SEQ_CLASSIFIER = Some []) \<longrightarrow>
      resolve_label get_biluo_labels get_labels cfg = Inr cfg)"
  using resolve_label_result [of get_biluo_labels get_labels cfg]
    resolve_label_returns [of get_biluo_labels get_labels cfg]
    resolve_label_untouched [of cfg get_biluo_labels get_labels]
  by blast

text \<open>The theorem at a pipeline with a token labeler that has labels and a sequence
  classifier with empty settings.\<close>

theorem label_resolution_witness:
  "routine_succeeds example_biluo (map_of (pipeline labels_example) TRANSFORMERS_NER) \<and>
   routine_succeeds (get_labels_spec (\<lambda>v. Inl (OSError ''labels'')))
     (map_of (pipeline labels_example) TRANSFORMERS_SEQ_CLASSIFIER) \<and>
   (\<exists>cfg'. resolve_label example_biluo (get_labels_spec (\<lambda>v. Inl (OSError ''labels'')))
        labels_example = Inr cfg' \<and>
      map_of (pipeline cfg') TRANSFORMERS_NER =
        Some [(KEY, VStr ''bert''),
              (LABELS, VList [VStr ''O'', VStr ''B-LOC'', VStr ''I-LOC'', VStr ''L-LOC'',
                 VStr ''U-LOC''])] \<and>
      map_of (pipeline cfg') TRANSFORMERS_SEQ_CLASSIFIER = Some [] \<and>
      map_of (pipeline cfg') ''sentencizer'' = Some [(LABELS, VList [VStr ''kept''])] \<and>
      map fst (pipeline cfg') = [TRANSFORMERS_SEQ_CLASSIFIER, ''sentencizer'', TRANSFORMERS_NER])"
proof -
  let ?g = "get_labels_spec (\<lambda>v. Inl (OSError ''labels''))"
  note t = label_resolution [of example_biluo ?g labels_example]
  have n: "map_of (pipeline labels_example) TRANSFORMERS_NER =
      Some [(KEY, VStr ''bert''), (LABELS, VList [VStr ''LOC''])]"
    by (simp add: labels_example_def stage_name_defs)
  have s: "map_of (pipeline labels_example) TRANSFORMERS_SEQ_CLASSIFIER = Some []"
    by (simp add: labels_example_def stage_name_defs)
  have o: "map_of (pipeline labels_example) ''sentencizer'' =
      Some [(LABELS, VList [VStr ''kept''])]"
    by (simp add: labels_example_def stage_name_defs)
  have k: "map fst (pipeline labels_example) =
      [TRANSFORMERS_SEQ_CLASSIFIER, ''sentencizer'', TRANSFORMERS_NER]"
    by (simp add: labels_example_def)
  have ne: "''sentencizer'' \<noteq> TRANSFORMERS_NER \<and> ''sentencizer'' \<noteq> TRANSFORMERS_SEQ_CLASSIFIER"
    by (simp add: stage_name_defs)
  have b: "example_biluo (getitem [(KEY, VStr ''bert''), (LABELS, VList [VStr ''LOC''])] LABELS) =
      Inr (VList [VStr ''O'', VStr ''B-LOC'', VStr ''I-LOC'', VStr ''L-LOC'', VStr ''U-LOC''])"
    by (simp add: example_biluo_def getitem_def KEY_def LABELS_def)
  have r1: "routine_succeeds example_biluo (map_of (pipeline labels_example) TRANSFORMERS_NER)"
    unfolding n by (simp add: routine_succeeds_def b)
  have r2: "routine_succeeds ?g (map_of (pipeline labels_example) TRANSFORMERS_SEQ_CLASSIFIER)"
    unfolding s by (simp add: routine_succeeds_def)
  have "\<exists>cfg'. resolve_label example_biluo ?g labels_example = Inr cfg'"
    using t [THEN conjunct2, THEN conjunct1] r1 r2 by (simp only: simp_thms)
  then obtain cfg' where c: "resolve_label example_biluo ?g labels_example = Inr cfg'" ..
  note u = t [THEN conjunct1, rule_format, OF c]
  note a = u [THEN conjunct1]
  note a2 = u [THEN conjunct2, THEN conjunct1]
  note a3 = u [THEN conjunct2, THEN conjunct2, THEN conjunct1]
  note a4 = u [THEN conjunct2, THEN conjunct2, THEN conjunct2, THEN conjunct1]
  have 1: "map_of (pipeline cfg') TRANSFORMERS_NER =
        Some [(KEY, VStr ''bert''),
              (LABELS, VList [VStr ''O'', VStr ''B-LOC'', VStr ''I-LOC'', VStr ''L-LOC'',
                 VStr ''U-LOC''])]"
    using a unfolding n by (simp add: stage_resolved_def b) (simp add: setitem_def KEY_def LABELS_def)
  have 2: "map_of (pipeline cfg') TRANSFORMERS_SEQ_CLASSIFIER = Some []"
    using a2 unfolding s by (simp add: stage_resolved_def)
  have 3: "map_of (pipeline cfg') ''sentencizer'' = Some [(LABELS, VList [VStr ''kept''])]"
    using a3 [rule_format, OF ne] o by simp
  have 4: "map fst (pipeline cfg') = [TRANSFORMERS_SEQ_CLASSIFIER, ''sentencizer'', TRANSFORMERS_NER]"
    using a4 k by simp
  have "\<exists>cfg'. resolve_label example_biluo ?g labels_example = Inr cfg' \<and>
      map_of (pipeline cfg') TRANSFORMERS_NER =
        Some [(KEY, VStr ''bert''),
              (LABELS, VList [VStr ''O'', VStr ''B-LOC'', VStr ''I-LOC'', VStr ''L-LOC'',
                 VStr ''U-LOC''])] \<and>
      map_of (pipeline cfg') TRANSFORMERS_SEQ_CLASSIFIER = Some [] \<and>
      map_of (pipeline cfg') ''sentencizer'' = Some [(LABELS, VList [VStr ''kept''])] \<and>
      map fst (pipeline cfg') = [TRANSFORMERS_SEQ_CLASSIFIER, ''sentencizer'', TRANSFORMERS_NER]"
    using c 1 2 3 4 by (intro exI [of _ cfg'] conjI)
  then show ?thesis using r1 r2 by (intro conjI)
qed

section \<open>The resolution chain\<close>

lemma completion_spec_lookup:
  assumes "k \<notin> set TRF_BASES"
  shows "map_of (completion_spec p) k = map_of p k"
proof -
  let ?P = "\<lambda>kv. fst kv \<notin> set TRF_TASKS"
  have "k \<notin> fst ` set (map (\<lambda>k. (k, [] :: settings)) (missing_bases p))"
    using assms by (auto simp: missing_bases_def)
  then have n: "map_of (map (\<lambda>k. (k, [] :: settings)) (missing_bases p)) k = None"
    by (simp add: map_of_eq_None_iff)
  have "map_of (completion_spec p) k = map_of (takeWhile ?P p @ dropWhile ?P p) k"
    unfolding completion_spec_def map_of_append using n
    by (auto simp: map_add_def split: option.splits)
  then show ?thesis by simp
qed

lemma complement_frame:
  assumes d: "distinct (map fst (pipeline cfg))"
  shows "\<forall>k. k \<notin> set TRF_BASES \<longrightarrow>
           map_of (pipeline (complement_trf_pipeline cfg)) k = map_of (pipeline cfg) k"
    and "filter (\<lambda>k. k \<in> set (map fst (pipeline cfg)))
           (map fst (pipeline (complement_trf_pipeline cfg))) = map fst (pipeline cfg)"
    and "lang (complement_trf_pipeline cfg) = lang cfg"
    and "name (complement_trf_pipeline cfg) = name cfg"
proof -
  let ?p = "pipeline cfg"
  have f: "filter (\<lambda>k. k \<in> set (map fst ?p)) (map fst (completion_spec ?p)) = map fst ?p"
    using completion_spec_filter [of ?p, THEN arg_cong, of "map fst"]
    by (simp add: filter_map comp_def)
  have c: "complement_trf_pipeline cfg = cfg \<or>
           complement_trf_pipeline cfg = cfg\<lparr>pipeline := completion_spec ?p\<rparr>"
    using complement_with_task [OF d] complement_without_task [of cfg] by blast
  show "\<forall>k. k \<notin> set TRF_BASES \<longrightarrow>
           map_of (pipeline (complement_trf_pipeline cfg)) k = map_of ?p k"
    using c by (auto simp: completion_spec_lookup)
  show "filter (\<lambda>k. k \<in> set (map fst ?p))
           (map fst (pipeline (complement_trf_pipeline cfg))) = map fst ?p"
    using c f by auto
  show "lang (complement_trf_pipeline cfg) = lang cfg" using c by auto
  show "name (complement_trf_pipeline cfg) = name cfg" using c by auto
qed

lemma chain_steps:
  assumes "correct_nlp_config pretty b g cfg = Inr cfg'"
  obtains c2 where "complement_trf_name pretty (complement_trf_pipeline cfg) = Inr c2"
    and "resolve_label b g (correct_torch c2) = Inr cfg'"
  using assms
  by (auto simp: correct_nlp_config_def correct_trf_pipeline_def split: sum.splits)

lemma bases_are_pipes: "k \<notin> set TRF_PIPES \<Longrightarrow> k \<notin> set TRF_BASES"
  by (simp add: TRF_PIPES_def)

lemma tasks_are_pipes:
  "k \<notin> set TRF_PIPES \<Longrightarrow> k \<noteq> TRANSFORMERS_NER \<and> k \<noteq> TRANSFORMERS_SEQ_CLASSIFIER"
  by (auto simp: TRF_PIPES_def TRF_TASKS_def)

text \<open>
  C9: when the resolution chain returns, every stage whose name is not one of the four
  advanced-backend names has the settings it had, and the stages that were in the pipeline
  are all still there, in the order they had.
\<close>

theorem chain_frame:
  assumes d: "distinct (map fst (pipeline cfg))"
    and r: "correct_nlp_config pretty get_biluo_labels get_labels cfg = Inr cfg'"
  shows "(\<forall>k. k \<notin> set TRF_PIPES \<longrightarrow> map_of (pipeline cfg') k = map_of (pipeline cfg) k) \<and>
         filter (\<lambda>k. k \<in> set (map fst (pipeline cfg))) (map fst (pipeline cfg')) =
           map fst (pipeline cfg)"
proof -
  from r obtain c2 where
    n: "complement_trf_name pretty (complement_trf_pipeline cfg) = Inr c2" and
    l: "resolve_label get_biluo_labels get_labels (correct_torch c2) = Inr cfg'"
    by (rule chain_steps)
  have t: "pipeline (correct_torch c2) = pipeline c2" by (simp add: correct_torch_def)
  have k1: "map fst (pipeline c2) = map fst (pipeline (complement_trf_pipeline cfg))"
    using propagate_keys [OF n] by simp
  have k2: "map fst (pipeline cfg') = map fst (pipeline c2)"
    using resolve_label_result(4) [OF l] t by simp
  have 1: "map_of (pipeline cfg') k = map_of (pipeline cfg) k" if k: "k \<notin> set TRF_PIPES" for k
  proof -
    have "map_of (pipeline cfg') k = map_of (pipeline c2) k"
      using resolve_label_result(3) [OF l] tasks_are_pipes [OF k] t by simp
    also have "\<dots> = map_of (pipeline (complement_trf_pipeline cfg)) k"
      using n k by (rule propagate_frame)
    also have "\<dots> = map_of (pipeline cfg) k"
      using complement_frame(1) [OF d] bases_are_pipes [OF k] by simp
    finally show ?thesis .
  qed
  have 2: "filter (\<lambda>k. k \<in> set (map fst (pipeline cfg))) (map fst (pipeline cfg')) =
           map fst (pipeline cfg)"
    unfolding k2 k1 using d by (rule complement_frame(2))
  show ?thesis using 1 2 by blast
qed

text \<open>
  C4: on the pipeline with the single sequence-classifier stage that names the model
  \<open>m1\<close> and the labels \<open>pos\<close>, \<open>neg\<close>, and a language section with the torch flag off, the
  chain returns the stages tokenizer, base model, sequence classifier in this order, each
  with the identifier \<open>m1\<close>, the torch flag on, and the labels \<open>pos\<close>, \<open>neg\<close>.
\<close>

theorem end_to_end_example:
  "correct_nlp_config pretty get_biluo_labels (get_labels_spec external)
     \<lparr>name = nm,
      lang = \<lparr>LangConfig.name = ''en'', torch = False, optimizer = opt, kwargs = kw\<rparr>,
      pipeline =
        [(TRANSFORMERS_SEQ_CLASSIFIER,
          [(KEY, VStr ''m1''), (LABELS, VList [VStr ''pos'', VStr ''neg''])])]\<rparr> =
   Inr \<lparr>name = nm,
        lang = \<lparr>LangConfig.name = ''en'', torch = True, optimizer = opt, kwargs = kw\<rparr>,
        pipeline =
          [(TRANSFORMERS_TOKENIZER, [(KEY, VStr ''m1'')]),
           (TRANSFORMERS_MODEL, [(KEY, VStr ''m1'')]),
           (TRANSFORMERS_SEQ_CLASSIFIER,
            [(KEY, VStr ''m1''), (LABELS, VList [VStr ''pos'', VStr ''neg''])])]\<rparr>"
proof -
  let ?seq = "[(KEY, VStr ''m1''), (LABELS, VList [VStr ''pos'', VStr ''neg''])]"
  let ?l = "\<lparr>LangConfig.name = ''en'', torch = False, optimizer = opt, kwargs = kw\<rparr>"
  let ?cfg = "\<lparr>name = nm, lang = ?l, pipeline = [(TRANSFORMERS_SEQ_CLASSIFIER, ?seq)]\<rparr>"
  let ?p1 = "[(TRANSFORMERS_TOKENIZER, []), (TRANSFORMERS_MODEL, []),
             (TRANSFORMERS_SEQ_CLASSIFIER, ?seq)]"
  let ?p2 = "[(TRANSFORMERS_TOKENIZER, [(KEY, VStr ''m1'')]),
             (TRANSFORMERS_MODEL, [(KEY, VStr ''m1'')]),
             (TRANSFORMERS_SEQ_CLASSIFIER, ?seq)]"
  have kl: "KEY \<noteq> LABELS" by (simp add: KEY_def LABELS_def)
  have 1: "complement_trf_pipeline ?cfg = \<lparr>name = nm, lang = ?l, pipeline = ?p1\<rparr>"
    by (simp add: complement_trf_pipeline_def Let_def stage_name_defs insert_at_def
        dict_comp_def setitem_def get_default_def)
  have 2: "complement_trf_name pretty \<lparr>name = nm, lang = ?l, pipeline = ?p1\<rparr> =
           Inr \<lparr>name = nm, lang = ?l, pipeline = ?p2\<rparr>"
    using kl
    by (simp add: complement_trf_name_def Let_def scan_name_def scan_step_def stage_name_defs
        getitem_def setitem_def)
  have 3: "correct_torch \<lparr>name = nm, lang = ?l, pipeline = ?p2\<rparr> =
           \<lparr>name = nm, lang = ?l\<lparr>torch := True\<rparr>, pipeline = ?p2\<rparr>"
    by (simp add: correct_torch_def stage_name_defs)
  have 4: "resolve_label get_biluo_labels (get_labels_spec external)
             \<lparr>name = nm, lang = ?l\<lparr>torch := True\<rparr>, pipeline = ?p2\<rparr> =
           Inr \<lparr>name = nm, lang = ?l\<lparr>torch := True\<rparr>, pipeline = ?p2\<rparr>"
    using kl
    by (simp add: resolve_label_def Let_def stage_name_defs getitem_def setitem_def
        get_labels_spec_def)
  show ?thesis
    unfolding correct_nlp_config_def correct_trf_pipeline_def 1 2 sum.case 3 4 by simp
qed

text \<open>The theorem at a pipeline with two other stages around a sequence classifier.\<close>

theorem chain_frame_witness:
  "distinct (map fst (pipeline chain_example)) \<and>
   correct_nlp_config example_pretty example_biluo (get_labels_spec (\<lambda>v. Inl (OSError ''labels'')))
     chain_example = Inr chain_example_result \<and>
   map_of (pipeline chain_example_result) ''sentencizer'' =
     map_of (pipeline chain_example) ''sentencizer'' \<and>
   map_of (pipeline chain_example_result) ''tagger'' = map_of (pipeline chain_example) ''tagger'' \<and>
   filter (\<lambda>k. k \<in> set (map fst (pipeline chain_example)))
     (map fst (pipeline chain_example_result)) = [''sentencizer'', TRANSFORMERS_SEQ_CLASSIFIER, ''tagger'']"
proof -
  let ?g = "get_labels_spec (\<lambda>v. Inl (OSError ''labels''))"
  let ?l = "\<lparr>LangConfig.name = ''en'', torch = False, optimizer = [], kwargs = None\<rparr>"
  let ?seq = "[(KEY, VStr ''m1''), (LABELS, VList [VStr ''pos'', VStr ''neg''])]"
  let ?p1 = "[(''sentencizer'', [(''punct_chars'', VList [VStr ''.''])]),
             (TRANSFORMERS_TOKENIZER, []), (TRANSFORMERS_MODEL, []),
             (TRANSFORMERS_SEQ_CLASSIFIER, ?seq), (''tagger'', [])]"
  have kl: "KEY \<noteq> LABELS" by (simp add: KEY_def LABELS_def)
  have d: "distinct (map fst (pipeline chain_example))"
    by (simp add: chain_example_def stage_name_defs)
  have 1: "complement_trf_pipeline chain_example =
      \<lparr>name = ''example'', lang = ?l, pipeline = ?p1\<rparr>"
    by (simp add: chain_example_def complement_trf_pipeline_def Let_def stage_name_defs
        insert_at_def dict_comp_def setitem_def get_default_def)
  have 2: "complement_trf_name example_pretty \<lparr>name = ''example'', lang = ?l, pipeline = ?p1\<rparr> =
           Inr (chain_example_result\<lparr>lang := ?l\<rparr>)"
    using kl
    by (simp add: chain_example_result_def complement_trf_name_def Let_def scan_name_def
        scan_step_def stage_name_defs getitem_def setitem_def)
  have 3: "correct_torch (chain_example_result\<lparr>lang := ?l\<rparr>) = chain_example_result"
    by (simp add: chain_example_result_def correct_torch_def stage_name_defs)
  have 4: "resolve_label example_biluo ?g chain_example_result = Inr chain_example_result"
    using kl
    by (simp add: chain_example_result_def resolve_label_def Let_def stage_name_defs getitem_def
        setitem_def get_labels_spec_def)
  have r: "correct_nlp_config example_pretty example_biluo ?g chain_example =
      Inr chain_example_result"
    unfolding correct_nlp_config_def correct_trf_pipeline_def 1 2 sum.case 3 4 ..
  have k: "map fst (pipeline chain_example) =
      [''sentencizer'', TRANSFORMERS_SEQ_CLASSIFIER, ''tagger'']"
    by (simp add: chain_example_def)
  note t = chain_frame [OF d r]
  have f: "filter (\<lambda>k. k \<in> set (map fst (pipeline chain_example)))
     (map fst (pipeline chain_example_result)) =
     [''sentencizer'', TRANSFORMERS_SEQ_CLASSIFIER, ''tagger'']"
    using t [THEN conjunct2] k by (rule trans)
  have n: "''sentencizer'' \<notin> set TRF_PIPES" "''tagger'' \<notin> set TRF_PIPES"
    by (simp_all add: stage_name_defs)
  show ?thesis
    using d r t [THEN conjunct1, rule_format, OF n(1)] t [THEN conjunct1, rule_format, OF n(2)] f
    by (intro conjI)
qed

section \<open>Language-host construction\<close>

lemma fold_setitem_fresh:
  "distinct (map fst d) \<Longrightarrow> set (map fst d) \<inter> fst ` set acc = {} \<Longrightarrow>
   fold (\<lambda>kv rv. setitem rv (fst kv) (snd kv)) d acc = acc @ d"
proof (induction d arbitrary: acc)
  case Nil
  then show ?case by simp
next
  case (Cons kv d)
  have u: "setitem acc (fst kv) (snd kv) = acc @ [kv]"
    using Cons.prems(2) by (simp add: setitem_new)
  show ?case using Cons by (simp add: u)
qed

lemma merge_one:
  "distinct (map fst d) \<Longrightarrow> merge d [(k, x)] = setitem d k x"
  by (simp add: merge_def fold_setitem_fresh)

text \<open>
  C8: with the torch flag set, and keyword arguments that are absent or a mapping whose
  \<open>meta\<close> is absent or a mapping, \<^verbatim>\<open>create_lang\<close> builds the advanced-backend host with the
  optimizer settings and the keyword arguments in which \<open>meta\<close> is the old \<open>meta\<close> with the
  entry \<open>lang\<close> set to the language name: every other entry of \<open>meta\<close> and every other
  keyword argument is as before.
\<close>

theorem create_lang_torch:
  assumes t: "torch cfg"
    and kw: "kw = (case kwargs cfg of None \<Rightarrow> [] | Some k \<Rightarrow> k)"
    and m: "get_default kw ''meta'' (VDict []) = VDict meta"
    and d: "distinct (map fst meta)"
  shows "\<exists>kw' meta'.
           create_lang cfg = Inr (TorchLanguage (optimizer cfg) kw') \<and>
           map_of kw' ''meta'' = Some (VDict meta') \<and>
           map_of meta' ''lang'' = Some (VStr (LangConfig.name cfg)) \<and>
           (\<forall>k. k \<noteq> ''lang'' \<longrightarrow> map_of meta' k = map_of meta k) \<and>
           fst ` set meta \<subseteq> fst ` set meta' \<and>
           (\<forall>k. k \<noteq> ''meta'' \<longrightarrow> map_of kw' k = map_of kw k) \<and>
           meta' = setitem meta ''lang'' (VStr (LangConfig.name cfg)) \<and>
           kw' = setitem kw ''meta'' (VDict meta')"
proof -
  let ?meta' = "setitem meta ''lang'' (VStr (LangConfig.name cfg))"
  let ?kw' = "setitem kw ''meta'' (VDict ?meta')"
  have 1: "create_lang cfg = Inr (TorchLanguage (optimizer cfg) ?kw')"
    using t m d unfolding create_lang_def Let_def kw [symmetric]
    by (simp add: merge_one)
  have 2: "map_of ?kw' ''meta'' = Some (VDict ?meta')" by (simp add: map_of_setitem)
  have 3: "map_of ?meta' ''lang'' = Some (VStr (LangConfig.name cfg))"
    by (simp add: map_of_setitem)
  have 4: "\<forall>k. k \<noteq> ''lang'' \<longrightarrow> map_of ?meta' k = map_of meta k"
    by (simp add: map_of_setitem)
  have 5: "fst ` set meta \<subseteq> fst ` set ?meta'"
    by (auto simp: setitem_def dom_update)
  have 6: "\<forall>k. k \<noteq> ''meta'' \<longrightarrow> map_of ?kw' k = map_of kw k"
    by (simp add: map_of_setitem)
  show ?thesis using 1 2 3 4 5 6 by blast
qed

text \<open>The theorem at keyword arguments whose \<open>meta\<close> has an author and a language.\<close>

theorem create_lang_torch_witness:
  "torch lang_example \<and>
   get_default (case kwargs lang_example of None \<Rightarrow> [] | Some k \<Rightarrow> k) ''meta'' (VDict []) =
     VDict [(''author'', VStr ''me''), (''lang'', VStr ''xx'')] \<and>
   distinct (map fst [(''author'', VStr ''me''), (''lang'', VStr ''xx'')]) \<and>
   create_lang lang_example =
     Inr (TorchLanguage [(''lr'', VInt 2)]
            [(''max_length'', VInt 100),
             (''meta'', VDict [(''author'', VStr ''me''), (''lang'', VStr ''ja'')])])"
proof -
  let ?kw = "case kwargs lang_example of None \<Rightarrow> [] | Some k \<Rightarrow> k"
  let ?meta = "[(''author'', VStr ''me''), (''lang'', VStr ''xx'')]"
  have t: "torch lang_example" by (simp add: lang_example_def)
  have m: "get_default ?kw ''meta'' (VDict []) = VDict ?meta"
    by (simp add: lang_example_def get_default_def)
  have d: "distinct (map fst ?meta)" by simp
  from create_lang_torch [OF t refl m d] obtain kw' meta' where
    c: "create_lang lang_example = Inr (TorchLanguage (optimizer lang_example) kw')" and
    m': "meta' = setitem ?meta ''lang'' (VStr (LangConfig.name lang_example))" and
    k': "kw' = setitem ?kw ''meta'' (VDict meta')"
    by (elim exE conjE) (rule that)
  have "kw' = [(''max_length'', VInt 100),
             (''meta'', VDict [(''author'', VStr ''me''), (''lang'', VStr ''ja'')])]"
    unfolding k' m' by (simp add: lang_example_def setitem_def)
  moreover have "optimizer lang_example = [(''lr'', VInt 2)]" by (simp add: lang_example_def)
  ultimately have "create_lang lang_example =
     Inr (TorchLanguage [(''lr'', VInt 2)]
            [(''max_length'', VInt 100),
             (''meta'', VDict [(''author'', VStr ''me''), (''lang'', VStr ''ja'')])])"
    using c by simp
  then show ?thesis using t m d by (intro conjI)
qed

end
